theory Spec2Isabelle
  imports Main "HOL-Library.Multiset"
begin

section \<open>Strings\<close>

text \<open>
  A JavaScript string is a sequence of code units. Here it is a \<open>string\<close>, that is a list of
  8-bit characters: the model covers the strings whose code units lie in U+0000..U+00FF,
  one \<open>char\<close> per code unit, and \<open>length\<close> is the \<open>.length\<close> of the source.
\<close>

definition startsWith :: "string \<Rightarrow> string \<Rightarrow> bool" where
  "startsWith s p = (take (length p) s = p)"

definition endsWith :: "string \<Rightarrow> string \<Rightarrow> bool" where
  "endsWith s p = (length p \<le> length s \<and> drop (length s - length p) s = p)"

text \<open>\<open>s.slice(0, -n)\<close>: everything but the last \<open>n\<close> code units, empty when there are fewer.\<close>

definition slice0 :: "string \<Rightarrow> nat \<Rightarrow> string" where
  "slice0 s n = take (length s - n) s"

section \<open>Collection names\<close>

text \<open>The character class \<open>[a-zA-Z0-9_-]\<close> of both regular expressions of the source.\<close>

definition isNameChar :: "char \<Rightarrow> bool" where
  "isNameChar c =
     (let n = (of_char c :: nat)
      in (97 \<le> n \<and> n \<le> 122) \<or> (65 \<le> n \<and> n \<le> 90) \<or> (48 \<le> n \<and> n \<le> 57)
         \<or> c = CHR ''_'' \<or> c = CHR ''-'')"

text \<open>
  An anchored match of \<open>^cls{lo,hi}$\<close> against the whole input, read from the left: each
  character must be in the class and uses up one repetition; the input must end with at
  least \<open>lo\<close> and at most \<open>hi\<close> repetitions made.
\<close>

fun match_repeat :: "(char \<Rightarrow> bool) \<Rightarrow> nat \<Rightarrow> nat \<Rightarrow> string \<Rightarrow> bool" where
  "match_repeat cls lo hi [] = (lo = 0)"
| "match_repeat cls lo hi (c # cs) = (0 < hi \<and> cls c \<and> match_repeat cls (lo - 1) (hi - 1) cs)"

text \<open>\<^verbatim>\<open>function isValidCollectionName(name) { return /^[a-zA-Z0-9_-]{1,50}$/.test(name); }\<close>\<close>

definition isValidCollectionName :: "string \<Rightarrow> bool" where
  "isValidCollectionName name = match_repeat isNameChar 1 50 name"

text \<open>\<^verbatim>\<open>collectionName.replace(/[^a-zA-Z0-9_-]/g, "")\<close>: every character outside the class is removed.\<close>

definition sanitize :: "string \<Rightarrow> string" where
  "sanitize collectionName = filter isNameChar collectionName"

section \<open>The registry of dynamic models\<close>

text \<open>
  A model handle as \<open>getDynamicModel\<close> builds it: a schema with no fields, \<open>strict: false\<close>,
  \<open>timestamps: true\<close>, the collection named by the sanitized name, and a text index on
  every field. \<open>mongoose.model\<close> makes a new object at each call; \<open>ident\<close> is the identity
  of that object, the number of models made before it.
\<close>

record model =
  modelName :: string
  collection :: string
  strict :: bool
  timestamps :: bool
  textIndex :: string
  ident :: nat

text \<open>The process-wide state: the map \<open>dynamicModels\<close> and the number of models made so far.\<close>

record registry =
  dynamicModels :: "string \<rightharpoonup> model"
  made :: nat

definition initial_registry :: registry where
  "initial_registry = \<lparr>dynamicModels = Map.empty, made = 0\<rparr>"

definition getDynamicModel :: "string \<Rightarrow> registry \<Rightarrow> model \<times> registry" where
  "getDynamicModel collectionName r =
     (let sanitizedName = sanitize collectionName
      in case dynamicModels r sanitizedName of
           Some m \<Rightarrow> (m, r)
         | None \<Rightarrow>
             (let m = \<lparr>modelName = sanitizedName, collection = sanitizedName, strict = False,
                        timestamps = True, textIndex = ''$**'', ident = made r\<rparr>
              in (m, r\<lparr>dynamicModels := (dynamicModels r)(sanitizedName \<mapsto> m),
                        made := Suc (made r)\<rparr>)))"

text \<open>A process lifetime as the sequence of the names \<open>getDynamicModel\<close> is called with.\<close>

fun getDynamicModels :: "string list \<Rightarrow> registry \<Rightarrow> model list \<times> registry" where
  "getDynamicModels [] r = ([], r)"
| "getDynamicModels (n # ns) r =
     (let (m, r') = getDynamicModel n r; (ms, r'') = getDynamicModels ns r'
      in (m # ms, r''))"

section \<open>The query translator\<close>

subsection \<open>parseInt\<close>

text \<open>
  \<open>parseInt(string)\<close> with no radix, as ECMAScript defines it: leading white space is
  dropped, then an optional sign, then \<open>0x\<close> or \<open>0X\<close> selects radix 16 (radix 10
  otherwise), and the longest run of digits of that radix is read; with no digit the result
  is NaN. The digits give a mathematical integer, and the result is the JavaScript number
  for it (\<open>-0\<close> is \<open>0\<close>).
\<close>

text \<open>
  A JavaScript number, as far as \<open>buildQuery\<close> can meet one. Every integer of magnitude
  at most \<open>2^53\<close> is a number exactly: \<open>Num\<close>. A larger integer becomes a nearby double,
  or an infinity, and at radix 10 an implementation may ignore the digits after the 20th;
  of such a result only the sign is kept, and that its magnitude is at least \<open>2^53\<close>:
  \<open>Huge\<close> and \<open>NegHuge\<close>.
\<close>

datatype number = NaN | Num int | Huge | NegHuge

definition toNumber :: "int \<Rightarrow> number" where
  "toNumber n =
     (if 9007199254740992 < n then Huge
      else if n < - 9007199254740992 then NegHuge
      else Num n)"

definition isStrWhiteSpace :: "char \<Rightarrow> bool" where
  "isStrWhiteSpace c = ((of_char c :: nat) \<in> {9, 10, 11, 12, 13, 32, 160})"

definition digitValue :: "char \<Rightarrow> nat option" where
  "digitValue c =
     (let n = (of_char c :: nat)
      in if 48 \<le> n \<and> n \<le> 57 then Some (n - 48)
         else if 97 \<le> n \<and> n \<le> 122 then Some (n - 87)
         else if 65 \<le> n \<and> n \<le> 90 then Some (n - 55)
         else None)"

definition isRadixDigit :: "nat \<Rightarrow> char \<Rightarrow> bool" where
  "isRadixDigit R c = (case digitValue c of None \<Rightarrow> False | Some d \<Rightarrow> d < R)"

definition mathInt :: "nat \<Rightarrow> string \<Rightarrow> nat" where
  "mathInt R Z = foldl (\<lambda>acc c. acc * R + (case digitValue c of None \<Rightarrow> 0 | Some d \<Rightarrow> d)) 0 Z"

definition parseInt :: "string \<Rightarrow> number" where
  "parseInt inputString =
     (let S = dropWhile isStrWhiteSpace inputString;
          sign = (if S \<noteq> [] \<and> hd S = CHR ''-'' then - 1 else 1);
          S1 = (if S \<noteq> [] \<and> (hd S = CHR ''+'' \<or> hd S = CHR ''-'') then tl S else S);
          hex = (2 \<le> length S1 \<and> (take 2 S1 = ''0x'' \<or> take 2 S1 = ''0X''));
          R = (if hex then 16 else 10);
          S2 = (if hex then drop 2 S1 else S1);
          Z = takeWhile (isRadixDigit R) S2
      in if Z = [] then NaN else toNumber (sign * int (mathInt R Z)))"

text \<open>\<open>n || d\<close> on a number: NaN and zero are falsy.\<close>

definition or_default :: "number \<Rightarrow> int \<Rightarrow> number" where
  "or_default n d =
     (case n of NaN \<Rightarrow> Num d | Num k \<Rightarrow> if k = 0 then Num d else Num k
      | Huge \<Rightarrow> Huge | NegHuge \<Rightarrow> NegHuge)"

text \<open>
  \<open>Math.min(x, c)\<close> and \<open>Math.max(x, c)\<close> for a constant \<open>c\<close> of magnitude below
  \<open>2^53\<close>.
\<close>

definition math_min :: "number \<Rightarrow> int \<Rightarrow> number" where
  "math_min x c =
     (case x of NaN \<Rightarrow> NaN | Num n \<Rightarrow> Num (min n c) | Huge \<Rightarrow> Num c | NegHuge \<Rightarrow> NegHuge)"

definition math_max :: "number \<Rightarrow> int \<Rightarrow> number" where
  "math_max x c =
     (case x of NaN \<Rightarrow> NaN | Num n \<Rightarrow> Num (max n c) | Huge \<Rightarrow> Huge | NegHuge \<Rightarrow> Num c)"

subsection \<open>The filter object\<close>

text \<open>
  A value stored under a field of the filter: the raw string of an exact match, or an
  object of operator entries (\<open>$gte\<close>, \<open>$lte\<close>, \<open>$ne\<close>, \<open>$search\<close>), whose values are
  strings. Objects are maps: the order of their keys is not modelled.
\<close>

datatype fval = Str string | Obj "string \<rightharpoonup> string"

text \<open>
  The object \<open>query\<close>: its own properties, and its prototype when an assignment to
  \<open>__proto__\<close> has replaced \<open>Object.prototype\<close> (\<open>None\<close> until then).
\<close>

record query_obj =
  own :: "string \<rightharpoonup> fval"
  proto :: "(string \<rightharpoonup> string) option"

text \<open>
  The read \<open>query[field]\<close>. \<open>__proto__\<close> reads the prototype; any other name reads the own
  property, then the replaced prototype. What is left is inherited from
  \<open>Object.prototype\<close>, or undefined: \<open>None\<close> here, since the only use of the read is an
  object spread, and these values (functions, \<open>Object.prototype\<close> itself, undefined) spread
  to nothing.
\<close>

definition get_prop :: "query_obj \<Rightarrow> string \<Rightarrow> fval option" where
  "get_prop q field =
     (if field = ''__proto__'' then map_option Obj (proto q)
      else case own q field of
             Some v \<Rightarrow> Some v
           | None \<Rightarrow> (case proto q of None \<Rightarrow> None | Some p \<Rightarrow> map_option Str (p field)))"

text \<open>
  The assignment \<open>query[field] = v\<close>: \<open>__proto__\<close> is the setter of \<open>Object.prototype\<close>,
  which replaces the prototype by an object and ignores a string; any other name becomes
  an own property.
\<close>

definition set_prop :: "query_obj \<Rightarrow> string \<Rightarrow> fval \<Rightarrow> query_obj" where
  "set_prop q field v =
     (if field = ''__proto__'' then (case v of Obj m \<Rightarrow> q\<lparr>proto := Some m\<rparr> | Str s \<Rightarrow> q)
      else q\<lparr>own := (own q)(field \<mapsto> v)\<rparr>)"

text \<open>The decimal numeral of an index, as a property key.\<close>

fun decimal :: "nat \<Rightarrow> string" where
  "decimal n =
     (if n < 10 then [char_of (48 + n)] else decimal (n div 10) @ [char_of (48 + n mod 10)])"

declare decimal.simps [simp del]

text \<open>
  The object spread \<open>{ ...v }\<close>: nothing for undefined, the entries of an object, and for a
  string one entry per index, holding the character at that index.
\<close>

fun spread :: "fval option \<Rightarrow> (string \<rightharpoonup> string)" where
  "spread None = Map.empty"
| "spread (Some (Obj m)) = m"
| "spread (Some (Str s)) = map_of (zip (map decimal [0..<length s]) (map (\<lambda>c. [c]) s))"

subsection \<open>buildQuery\<close>

text \<open>\<open>sortBy\<close> is the one-entry object \<open>{ [sortField]: sortOrder }\<close>.\<close>

record options =
  limit :: number
  skip :: number
  sortBy :: "string \<times> int"

record built =
  query :: query_obj
  options :: options

definition initial_built :: built where
  "initial_built =
     \<lparr>query = \<lparr>own = Map.empty, proto = None\<rparr>,
      options = \<lparr>limit = Num 100, skip = Num 0, sortBy = (''createdAt'', - 1)\<rparr>\<rparr>"

text \<open>The body of the loop, for one entry \<open>[key, value]\<close>.\<close>

definition step :: "string \<times> string \<Rightarrow> built \<Rightarrow> built" where
  "step kv b =
     (let key = fst kv; value = snd kv
      in if key = ''_limit'' then
           b\<lparr>options := (options b)\<lparr>limit := math_min (or_default (parseInt value) 100) 1000\<rparr>\<rparr>
         else if key = ''_skip'' \<or> key = ''_offset'' then
           b\<lparr>options := (options b)\<lparr>skip := math_max (or_default (parseInt value) 0) 0\<rparr>\<rparr>
         else if key = ''_sort'' then
           (let sortOrder = (if startsWith value ''-'' then - 1 else 1);
                sortField = (if startsWith value ''-'' then tl value else value)
            in b\<lparr>options := (options b)\<lparr>sortBy := (sortField, sortOrder)\<rparr>\<rparr>)
         else if key = ''_search'' then
           b\<lparr>query := set_prop (query b) ''$text'' (Obj [''$search'' \<mapsto> value])\<rparr>
         else if endsWith key ''_gte'' then
           (let field = slice0 key 4
            in b\<lparr>query := set_prop (query b) field
                              (Obj ((spread (get_prop (query b) field))(''$gte'' \<mapsto> value)))\<rparr>)
         else if endsWith key ''_lte'' then
           (let field = slice0 key 4
            in b\<lparr>query := set_prop (query b) field
                              (Obj ((spread (get_prop (query b) field))(''$lte'' \<mapsto> value)))\<rparr>)
         else if endsWith key ''_ne'' then
           (let field = slice0 key 3
            in b\<lparr>query := set_prop (query b) field (Obj [''$ne'' \<mapsto> value])\<rparr>)
         else if \<not> startsWith key ''_'' then
           b\<lparr>query := set_prop (query b) key (Str value)\<rparr>
         else b)"

text \<open>
  \<open>queryParams\<close> is given by \<open>Object.entries(queryParams)\<close>, the list of its entries in
  enumeration order (the keys of an object are distinct); keys and values are strings.
\<close>

definition buildQuery :: "(string \<times> string) list \<Rightarrow> built" where
  "buildQuery queryParams = fold step queryParams initial_built"

subsection \<open>What an entry writes\<close>

text \<open>
  The place an entry writes, by the branch of the loop body its key takes: one of the three
  options, or a field of the filter (\<open>_search\<close> writes the field \<open>$text\<close>). A key that
  takes no branch writes nothing.
\<close>

datatype slot = LimitSlot | SkipSlot | SortSlot | FieldSlot string

definition slot_of :: "string \<Rightarrow> slot option" where
  "slot_of key =
     (if key = ''_limit'' then Some LimitSlot
      else if key = ''_skip'' \<or> key = ''_offset'' then Some SkipSlot
      else if key = ''_sort'' then Some SortSlot
      else if key = ''_search'' then Some (FieldSlot ''$text'')
      else if endsWith key ''_gte'' then Some (FieldSlot (slice0 key 4))
      else if endsWith key ''_lte'' then Some (FieldSlot (slice0 key 4))
      else if endsWith key ''_ne'' then Some (FieldSlot (slice0 key 3))
      else if \<not> startsWith key ''_'' then Some (FieldSlot key)
      else None)"

definition range_key :: "string \<Rightarrow> bool" where
  "range_key key = (endsWith key ''_gte'' \<or> endsWith key ''_lte'')"

text \<open>
  Two different keys are in conflict when they write the same place, unless they are the
  \<open>_gte\<close> and the \<open>_lte\<close> key of one field.
\<close>

definition conflict :: "string \<Rightarrow> string \<Rightarrow> bool" where
  "conflict k1 k2 =
     (k1 \<noteq> k2 \<and> slot_of k1 \<noteq> None \<and> slot_of k1 = slot_of k2
      \<and> \<not> (range_key k1 \<and> range_key k2))"

text \<open>
  The loop body once more, as the update an entry stands for: the new value of an option,
  or a field together with the value to store, computed from what \<open>query[field]\<close> reads.
\<close>

datatype effect =
    SetLimit number
  | SetSkip number
  | SetSort "string \<times> int"
  | SetField string "fval option \<Rightarrow> fval"
  | NoEffect

definition effect_of :: "string \<times> string \<Rightarrow> effect" where
  "effect_of kv =
     (let key = fst kv; value = snd kv
      in if key = ''_limit'' then SetLimit (math_min (or_default (parseInt value) 100) 1000)
         else if key = ''_skip'' \<or> key = ''_offset'' then
           SetSkip (math_max (or_default (parseInt value) 0) 0)
         else if key = ''_sort'' then
           SetSort (if startsWith value ''-'' then tl value else value,
                    if startsWith value ''-'' then - 1 else 1)
         else if key = ''_search'' then SetField ''$text'' (\<lambda>old. Obj [''$search'' \<mapsto> value])
         else if endsWith key ''_gte'' then
           SetField (slice0 key 4) (\<lambda>old. Obj ((spread old)(''$gte'' \<mapsto> value)))
         else if endsWith key ''_lte'' then
           SetField (slice0 key 4) (\<lambda>old. Obj ((spread old)(''$lte'' \<mapsto> value)))
         else if endsWith key ''_ne'' then SetField (slice0 key 3) (\<lambda>old. Obj [''$ne'' \<mapsto> value])
         else if \<not> startsWith key ''_'' then SetField key (\<lambda>old. Str value)
         else NoEffect)"

fun apply_effect :: "effect \<Rightarrow> built \<Rightarrow> built" where
  "apply_effect (SetLimit n) b = b\<lparr>options := (options b)\<lparr>limit := n\<rparr>\<rparr>"
| "apply_effect (SetSkip n) b = b\<lparr>options := (options b)\<lparr>skip := n\<rparr>\<rparr>"
| "apply_effect (SetSort s) b = b\<lparr>options := (options b)\<lparr>sortBy := s\<rparr>\<rparr>"
| "apply_effect (SetField f g) b = b\<lparr>query := set_prop (query b) f (g (get_prop (query b) f))\<rparr>"
| "apply_effect NoEffect b = b"

fun effect_slot :: "effect \<Rightarrow> slot option" where
  "effect_slot (SetLimit n) = Some LimitSlot"
| "effect_slot (SetSkip n) = Some SkipSlot"
| "effect_slot (SetSort s) = Some SortSlot"
| "effect_slot (SetField f g) = Some (FieldSlot f)"
| "effect_slot NoEffect = None"

section \<open>The route handlers\<close>

text \<open>
  The document store is outside the program. Each operation the handlers await is given by
  its outcome: \<open>Inl msg\<close> when it throws an error whose \<open>message\<close> is \<open>msg\<close>, \<open>Inr\<close>
  with the value it resolves to otherwise. Documents (\<open>'d\<close>) and the values of a request
  body (\<open>'j\<close>) are left open. \<open>objectIdIsValid\<close> is \<open>mongoose.Types.ObjectId.isValid\<close>.
\<close>

record collection_info =
  cname :: string

datatype 'j update = Overwrite "(string \<times> 'j) list" | SetFields "(string \<times> 'j) list"

record ('d, 'j) store =
  listCollections :: "string + collection_info list"
  findDocs :: "model \<Rightarrow> query_obj \<Rightarrow> options \<Rightarrow> string + 'd list"
  countDocuments :: "model \<Rightarrow> query_obj \<Rightarrow> string + nat"
  findById :: "model \<Rightarrow> string \<Rightarrow> string + 'd option"
  save :: "model \<Rightarrow> (string \<times> 'j) list \<Rightarrow> string + 'd"
  findByIdAndUpdate :: "model \<Rightarrow> string \<Rightarrow> 'j update \<Rightarrow> string + 'd option"
  findByIdAndDelete :: "model \<Rightarrow> string \<Rightarrow> string + 'd option"
  deleteMany :: "model \<Rightarrow> string + nat"
  objectIdIsValid :: "string \<Rightarrow> bool"

text \<open>The store operations a handler has started, in order, each with the collection it is on.\<close>

datatype store_call =
    ListCollections
  | Find string
  | CountDocuments string
  | FindById string string
  | Save string
  | FindByIdAndUpdate string string
  | FindByIdAndDelete string string
  | DeleteMany string

text \<open>
  The JSON bodies the handlers send: \<open>{error}\<close>, \<open>{count, collections}\<close>,
  \<open>{collection, count, total, data}\<close>, a document, \<open>{message, deleted}\<close> and
  \<open>{message, deletedCount}\<close>.
\<close>

datatype 'd body =
    ErrorBody string
  | CollectionsBody nat "string list"
  | DocumentsBody string nat nat "'d list"
  | DocumentBody 'd
  | DeletedBody string 'd
  | DeletedAllBody string nat

record 'd response =
  status :: nat
  body :: "'d body"

text \<open>What a handler does: the response it sends, the registry it leaves, the store calls made.\<close>

record 'd outcome =
  response :: "'d response"
  registry_after :: registry
  store_calls :: "store_call list"

definition reply :: "nat \<Rightarrow> 'd body \<Rightarrow> registry \<Rightarrow> store_call list \<Rightarrow> 'd outcome" where
  "reply code b r calls =
     \<lparr>response = \<lparr>status = code, body = b\<rparr>, registry_after = r, store_calls = calls\<rparr>"

text \<open>\<open>!req.body || Object.keys(req.body).length === 0\<close>; \<open>None\<close> is a body that is not there.\<close>

definition bodyIsEmpty :: "(string \<times> 'j) list option \<Rightarrow> bool" where
  "bodyIsEmpty reqBody = (case reqBody of None \<Rightarrow> True | Some entries \<Rightarrow> length entries = 0)"

text \<open>\<open>app.get("/collections")\<close>\<close>

definition get_collections :: "('d, 'j) store \<Rightarrow> registry \<Rightarrow> 'd outcome" where
  "get_collections st r =
     (case listCollections st of
        Inl msg \<Rightarrow> reply 500 (ErrorBody ''Failed to fetch collections'') r [ListCollections]
      | Inr collections \<Rightarrow>
          (let collectionNames = filter (\<lambda>n. \<not> startsWith n ''system.'') (map cname collections)
           in reply 200 (CollectionsBody (length collectionNames) collectionNames) r
                [ListCollections]))"

text \<open>\<open>app.get("/:collection")\<close>\<close>

definition get_collection ::
  "('d, 'j) store \<Rightarrow> registry \<Rightarrow> string \<Rightarrow> (string \<times> string) list \<Rightarrow> 'd outcome" where
  "get_collection st r collectionName reqQuery =
     (if \<not> isValidCollectionName collectionName then
        reply 400 (ErrorBody ''Invalid collection name'') r []
      else
        (let (Model, r') = getDynamicModel collectionName r;
             b = buildQuery reqQuery
         in case findDocs st Model (query b) (options b) of
              Inl msg \<Rightarrow> reply 500 (ErrorBody msg) r' [Find (collection Model)]
            | Inr documents \<Rightarrow>
                (case countDocuments st Model (query b) of
                   Inl msg \<Rightarrow>
                     reply 500 (ErrorBody msg) r'
                       [Find (collection Model), CountDocuments (collection Model)]
                 | Inr totalCount \<Rightarrow>
                     reply 200 (DocumentsBody collectionName (length documents) totalCount documents) r'
                       [Find (collection Model), CountDocuments (collection Model)])))"

text \<open>\<open>app.get("/:collection/:id")\<close>\<close>

definition get_document ::
  "('d, 'j) store \<Rightarrow> registry \<Rightarrow> string \<Rightarrow> string \<Rightarrow> 'd outcome" where
  "get_document st r collectionName docId =
     (if \<not> isValidCollectionName collectionName then
        reply 400 (ErrorBody ''Invalid collection name'') r []
      else if \<not> objectIdIsValid st docId then
        reply 400 (ErrorBody ''Invalid document ID'') r []
      else
        (let (Model, r') = getDynamicModel collectionName r
         in case findById st Model docId of
              Inl msg \<Rightarrow> reply 500 (ErrorBody msg) r' [FindById (collection Model) docId]
            | Inr None \<Rightarrow>
                reply 404 (ErrorBody ''Document not found'') r' [FindById (collection Model) docId]
            | Inr (Some document) \<Rightarrow>
                reply 200 (DocumentBody document) r' [FindById (collection Model) docId]))"

text \<open>\<open>app.post("/:collection")\<close>\<close>

definition post_collection ::
  "('d, 'j) store \<Rightarrow> registry \<Rightarrow> string \<Rightarrow> (string \<times> 'j) list option \<Rightarrow> 'd outcome" where
  "post_collection st r collectionName reqBody =
     (if \<not> isValidCollectionName collectionName then
        reply 400 (ErrorBody ''Invalid collection name'') r []
      else if bodyIsEmpty reqBody then
        reply 400 (ErrorBody ''Request body cannot be empty'') r []
      else
        (let (Model, r') = getDynamicModel collectionName r
         in case save st Model (case reqBody of None \<Rightarrow> [] | Some entries \<Rightarrow> entries) of
              Inl msg \<Rightarrow> reply 500 (ErrorBody msg) r' [Save (collection Model)]
            | Inr document \<Rightarrow> reply 201 (DocumentBody document) r' [Save (collection Model)]))"

text \<open>\<open>app.put("/:collection/:id")\<close>\<close>

definition put_document ::
  "('d, 'j) store \<Rightarrow> registry \<Rightarrow> string \<Rightarrow> string \<Rightarrow> (string \<times> 'j) list option \<Rightarrow> 'd outcome"
  where
  "put_document st r collectionName docId reqBody =
     (if \<not> isValidCollectionName collectionName then
        reply 400 (ErrorBody ''Invalid collection name'') r []
      else if \<not> objectIdIsValid st docId then
        reply 400 (ErrorBody ''Invalid document ID'') r []
      else if bodyIsEmpty reqBody then
        reply 400 (ErrorBody ''Request body cannot be empty'') r []
      else
        (let (Model, r') = getDynamicModel collectionName r
         in case findByIdAndUpdate st Model docId
                   (Overwrite (case reqBody of None \<Rightarrow> [] | Some entries \<Rightarrow> entries)) of
              Inl msg \<Rightarrow>
                reply 500 (ErrorBody msg) r' [FindByIdAndUpdate (collection Model) docId]
            | Inr None \<Rightarrow>
                reply 404 (ErrorBody ''Document not found'') r'
                  [FindByIdAndUpdate (collection Model) docId]
            | Inr (Some document) \<Rightarrow>
                reply 200 (DocumentBody document) r' [FindByIdAndUpdate (collection Model) docId]))"

text \<open>\<open>app.patch("/:collection/:id")\<close>\<close>

definition patch_document ::
  "('d, 'j) store \<Rightarrow> registry \<Rightarrow> string \<Rightarrow> string \<Rightarrow> (string \<times> 'j) list option \<Rightarrow> 'd outcome"
  where
  "patch_document st r collectionName docId reqBody =
     (if \<not> isValidCollectionName collectionName then
        reply 400 (ErrorBody ''Invalid collection name'') r []
      else if \<not> objectIdIsValid st docId then
        reply 400 (ErrorBody ''Invalid document ID'') r []
      else if bodyIsEmpty reqBody then
        reply 400 (ErrorBody ''Request body cannot be empty'') r []
      else
        (let (Model, r') = getDynamicModel collectionName r
         in case findByIdAndUpdate st Model docId
                   (SetFields (case reqBody of None \<Rightarrow> [] | Some entries \<Rightarrow> entries)) of
              Inl msg \<Rightarrow>
                reply 500 (ErrorBody msg) r' [FindByIdAndUpdate (collection Model) docId]
            | Inr None \<Rightarrow>
                reply 404 (ErrorBody ''Document not found'') r'
                  [FindByIdAndUpdate (collection Model) docId]
            | Inr (Some document) \<Rightarrow>
                reply 200 (DocumentBody document) r' [FindByIdAndUpdate (collection Model) docId]))"

text \<open>\<open>app.delete("/:collection/:id")\<close>\<close>

definition delete_document ::
  "('d, 'j) store \<Rightarrow> registry \<Rightarrow> string \<Rightarrow> string \<Rightarrow> 'd outcome" where
  "delete_document st r collectionName docId =
     (if \<not> isValidCollectionName collectionName then
        reply 400 (ErrorBody ''Invalid collection name'') r []
      else if \<not> objectIdIsValid st docId then
        reply 400 (ErrorBody ''Invalid document ID'') r []
      else
        (let (Model, r') = getDynamicModel collectionName r
         in case findByIdAndDelete st Model docId of
              Inl msg \<Rightarrow>
                reply 500 (ErrorBody msg) r' [FindByIdAndDelete (collection Model) docId]
            | Inr None \<Rightarrow>
                reply 404 (ErrorBody ''Document not found'') r'
                  [FindByIdAndDelete (collection Model) docId]
            | Inr (Some document) \<Rightarrow>
                reply 200 (DeletedBody ''Document deleted successfully'' document) r'
                  [FindByIdAndDelete (collection Model) docId]))"

text \<open>\<open>app.delete("/:collection")\<close>\<close>

definition delete_collection ::
  "('d, 'j) store \<Rightarrow> registry \<Rightarrow> string \<Rightarrow> 'd outcome" where
  "delete_collection st r collectionName =
     (if \<not> isValidCollectionName collectionName then
        reply 400 (ErrorBody ''Invalid collection name'') r []
      else
        (let (Model, r') = getDynamicModel collectionName r
         in case deleteMany st Model of
              Inl msg \<Rightarrow> reply 500 (ErrorBody msg) r' [DeleteMany (collection Model)]
            | Inr deletedCount \<Rightarrow>
                reply 200 (DeletedAllBody ''All documents deleted successfully'' deletedCount) r'
                  [DeleteMany (collection Model)]))"

text \<open>
  A limiter entry that stands for \<open>n\<close> hits in a window that began at \<open>T\<close> or later: no
  entry and no hit, or an entry with count \<open>n\<close> that does not expire within 15 minutes of
  \<open>T\<close>.
\<close>

definition in_window :: "nat \<Rightarrow> (nat \<times> nat) option \<Rightarrow> nat \<Rightarrow> bool" where
  "in_window T e n =
     (case e of None \<Rightarrow> n = 0 | Some (c, resetTime) \<Rightarrow> c = n \<and> T + 15 * 60 * 1000 \<le> resetTime)"

section \<open>Two stores to run the handlers on\<close>

text \<open>
  A store that holds three collections and no documents, and a store on which every
  operation throws an error with the given message.
\<close>

definition empty_store :: "(string, string) store" where
  "empty_store =
     \<lparr>listCollections =
        Inr [\<lparr>cname = ''posts''\<rparr>, \<lparr>cname = ''system.indexes''\<rparr>, \<lparr>cname = ''users''\<rparr>],
      findDocs = (\<lambda>m q opts. Inr []),
      countDocuments = (\<lambda>m q. Inr 0),
      findById = (\<lambda>m i. Inr None),
      save = (\<lambda>m entries. Inr ''saved''),
      findByIdAndUpdate = (\<lambda>m i u. Inr None),
      findByIdAndDelete = (\<lambda>m i. Inr None),
      deleteMany = (\<lambda>m. Inr 0),
      objectIdIsValid = (\<lambda>i. length i = 24)\<rparr>"

definition failing_store :: "string \<Rightarrow> (string, string) store" where
  "failing_store msg =
     \<lparr>listCollections = Inl msg,
      findDocs = (\<lambda>m q opts. Inl msg),
      countDocuments = (\<lambda>m q. Inl msg),
      findById = (\<lambda>m i. Inl msg),
      save = (\<lambda>m entries. Inl msg),
      findByIdAndUpdate = (\<lambda>m i u. Inl msg),
      findByIdAndDelete = (\<lambda>m i. Inl msg),
      deleteMany = (\<lambda>m. Inl msg),
      objectIdIsValid = (\<lambda>i. length i = 24)\<rparr>"

section \<open>Routes and rate limiting\<close>

subsection \<open>The route table\<close>

text \<open>
  The routes in the order \<open>server.js\<close> registers them, each with its verb, its path and
  whether \<open>writeLimiter\<close> is among its middlewares. A request path is the list of its
  segments. \<open>app.get\<close> also answers \<open>HEAD\<close>, and a literal segment is matched without
  regard to case, as Express does by default. A request that matches no route goes to the
  404 handler.
\<close>

datatype http_method = GET | HEAD | POST | PUT | PATCH | DELETE | OPTIONS

datatype path_pattern = RootPath | CollectionsPath | CollectionPath | DocumentPath

record route =
  verb :: http_method
  pattern :: path_pattern
  withWriteLimiter :: bool

definition routes :: "route list" where
  "routes =
     [\<lparr>verb = GET, pattern = RootPath, withWriteLimiter = False\<rparr>,
      \<lparr>verb = GET, pattern = CollectionsPath, withWriteLimiter = False\<rparr>,
      \<lparr>verb = GET, pattern = CollectionPath, withWriteLimiter = False\<rparr>,
      \<lparr>verb = GET, pattern = DocumentPath, withWriteLimiter = False\<rparr>,
      \<lparr>verb = POST, pattern = CollectionPath, withWriteLimiter = True\<rparr>,
      \<lparr>verb = PUT, pattern = DocumentPath, withWriteLimiter = True\<rparr>,
      \<lparr>verb = PATCH, pattern = DocumentPath, withWriteLimiter = True\<rparr>,
      \<lparr>verb = DELETE, pattern = DocumentPath, withWriteLimiter = True\<rparr>,
      \<lparr>verb = DELETE, pattern = CollectionPath, withWriteLimiter = True\<rparr>]"

definition to_lower :: "char \<Rightarrow> char" where
  "to_lower c =
     (let n = (of_char c :: nat) in if 65 \<le> n \<and> n \<le> 90 then char_of (n + 32) else c)"

fun matches :: "path_pattern \<Rightarrow> string list \<Rightarrow> bool" where
  "matches RootPath segments = (segments = [])"
| "matches CollectionsPath segments = (map (map to_lower) segments = [''collections''])"
| "matches CollectionPath segments = (length segments = 1)"
| "matches DocumentPath segments = (length segments = 2)"

definition dispatch :: "http_method \<Rightarrow> string list \<Rightarrow> route option" where
  "dispatch m segments =
     List.find (\<lambda>r. (verb r = m \<or> (verb r = GET \<and> m = HEAD)) \<and> matches (pattern r) segments)
       routes"

definition usesWriteLimiter :: "http_method \<Rightarrow> string list \<Rightarrow> bool" where
  "usesWriteLimiter m segments =
     (case dispatch m segments of None \<Rightarrow> False | Some r \<Rightarrow> withWriteLimiter r)"

subsection \<open>The limiters\<close>

text \<open>
  Modelled from the spec: the middleware that \<open>rateLimit(options)\<close> returns. The package
  express-rate-limit is a dependency and its code is not among the sources. The
  specification describes it: a fixed window, a count per IP that starts again when the
  window has elapsed, and a 429 response with the configured message on exceedance. A
  limiter keeps, per IP, the number of hits in the current window and the time at which
  that window ends; a hit is let through when the count, this hit included, is at most
  \<open>max\<close>. Times are in milliseconds.
\<close>

record rate_limit =
  windowMs :: nat
  maxHits :: nat
  message :: string

type_synonym hits = "string \<rightharpoonup> nat \<times> nat"

definition hit :: "rate_limit \<Rightarrow> hits \<Rightarrow> string \<Rightarrow> nat \<Rightarrow> bool \<times> hits" where
  "hit l h addr now =
     (let entry = (case h addr of
                     None \<Rightarrow> (1, now + windowMs l)
                   | Some (n, resetTime) \<Rightarrow>
                       if now < resetTime then (n + 1, resetTime) else (1, now + windowMs l))
      in (fst entry \<le> maxHits l, h(addr \<mapsto> entry)))"

text \<open>The two limiters of \<open>server.js\<close>.\<close>

definition globalLimiter :: rate_limit where
  "globalLimiter =
     \<lparr>windowMs = 15 * 60 * 1000, maxHits = 100,
      message = ''Too many requests from this IP, please try again later.''\<rparr>"

definition writeLimiter :: rate_limit where
  "writeLimiter =
     \<lparr>windowMs = 15 * 60 * 1000, maxHits = 30,
      message = ''Too many write operations from this IP, please try again later.''\<rparr>"

subsection \<open>A request on its way to a handler\<close>

text \<open>
  The state of the two limiters, and a request as it arrives at \<open>globalLimiter\<close> (the
  middlewares registered before it may have answered the request already: a static file,
  a body that does not parse). The request goes through \<open>globalLimiter\<close>, then, on a route
  that has it, through \<open>writeLimiter\<close>; a limiter that refuses ends the request with 429
  and its message, and the later limiter does not see the request.
\<close>

record limits =
  globalHits :: hits
  writeHits :: hits

record request =
  ip :: string
  time :: nat
  reqMethod :: http_method
  path :: "string list"

datatype verdict = TooMany string | Dispatched

definition initial_limits :: limits where
  "initial_limits = \<lparr>globalHits = Map.empty, writeHits = Map.empty\<rparr>"

definition admit :: "limits \<Rightarrow> request \<Rightarrow> verdict \<times> limits" where
  "admit s rq =
     (let (ok, g) = hit globalLimiter (globalHits s) (ip rq) (time rq)
      in if \<not> ok then (TooMany (message globalLimiter), s\<lparr>globalHits := g\<rparr>)
         else if usesWriteLimiter (reqMethod rq) (path rq) then
           (let (ok', w) = hit writeLimiter (writeHits s) (ip rq) (time rq)
            in if \<not> ok' then
                 (TooMany (message writeLimiter), s\<lparr>globalHits := g, writeHits := w\<rparr>)
               else (Dispatched, s\<lparr>globalHits := g, writeHits := w\<rparr>))
         else (Dispatched, s\<lparr>globalHits := g\<rparr>))"

text \<open>The verdicts on a sequence of requests, in the order they arrive.\<close>

fun admit_all :: "limits \<Rightarrow> request list \<Rightarrow> verdict list" where
  "admit_all s [] = []"
| "admit_all s (rq # rqs) = (let (v, s') = admit s rq in v # admit_all s' rqs)"

section \<open>Properties of the validator and the registry\<close>

lemma match_repeat_iff:
  "match_repeat cls lo hi s \<longleftrightarrow> list_all cls s \<and> lo \<le> length s \<and> length s \<le> hi"
  by (induction s arbitrary: lo hi) auto

lemma isValidCollectionName_iff:
  "isValidCollectionName name \<longleftrightarrow>
     list_all isNameChar name \<and> 1 \<le> length name \<and> length name \<le> 50"
  by (simp add: isValidCollectionName_def match_repeat_iff)

lemma sanitize_valid: "isValidCollectionName name \<Longrightarrow> sanitize name = name"
  by (simp add: isValidCollectionName_iff sanitize_def list_all_iff)

lemma getDynamicModel_entry:
  "dynamicModels (snd (getDynamicModel n r)) (sanitize n) = Some (fst (getDynamicModel n r))"
  by (simp add: getDynamicModel_def Let_def split: option.split)

lemma getDynamicModel_hit:
  "dynamicModels r (sanitize n) = Some m \<Longrightarrow> getDynamicModel n r = (m, r)"
  by (simp add: getDynamicModel_def)

lemma getDynamicModel_keeps:
  "dynamicModels r k = Some m \<Longrightarrow> dynamicModels (snd (getDynamicModel n r)) k = Some m"
  by (auto simp add: getDynamicModel_def Let_def split: option.split)

lemma getDynamicModels_hit:
  "dynamicModels r k = Some m \<Longrightarrow> j < length ns \<Longrightarrow> sanitize (ns ! j) = k \<Longrightarrow>
   fst (getDynamicModels ns r) ! j = m"
proof (induction ns arbitrary: r j)
  case Nil
  then show ?case by simp
next
  case (Cons n ns)
  have keep: "dynamicModels (snd (getDynamicModel n r)) k = Some m"
    using Cons.prems(1) by (rule getDynamicModel_keeps)
  show ?case
  proof (cases j)
    case 0
    with Cons.prems have "dynamicModels r (sanitize n) = Some m" by simp
    then have "getDynamicModel n r = (m, r)" by (rule getDynamicModel_hit)
    with 0 show ?thesis by (simp add: split_beta)
  next
    case (Suc j')
    with Cons.prems have "j' < length ns" and "sanitize (ns ! j') = k" by simp_all
    from Cons.IH [OF keep this] Suc show ?thesis by (simp add: split_beta Let_def)
  qed
qed

lemma getDynamicModels_same:
  "i < j \<Longrightarrow> j < length ns \<Longrightarrow> sanitize (ns ! i) = sanitize (ns ! j) \<Longrightarrow>
   fst (getDynamicModels ns r) ! i = fst (getDynamicModels ns r) ! j"
proof (induction ns arbitrary: r i j)
  case Nil
  then show ?case by simp
next
  case (Cons n ns)
  from Cons.prems(1) obtain j' where j: "j = Suc j'" by (cases j) simp_all
  let ?m = "fst (getDynamicModel n r)" and ?r = "snd (getDynamicModel n r)"
  show ?case
  proof (cases i)
    case 0
    with Cons.prems j have "j' < length ns" and "sanitize (ns ! j') = sanitize n" by simp_all
    from getDynamicModels_hit [OF getDynamicModel_entry this]
    show ?thesis using 0 j by (simp add: split_beta Let_def)
  next
    case (Suc i')
    with Cons.prems j have "i' < j'" and "j' < length ns"
      and "sanitize (ns ! i') = sanitize (ns ! j')" by simp_all
    from Cons.IH [OF this, of ?r] Suc j show ?thesis by (simp add: split_beta Let_def)
  qed
qed

text \<open>
  Claim C6. \<open>getDynamicModel\<close> is idempotent: a second call with the same name returns the
  handle of the first and leaves the registry as the first call left it; and over any
  sequence of calls, from any registry, two calls whose names have the same sanitized name
  return the same handle, so there is at most one handle per sanitized name.
\<close>

theorem getDynamicModel_idempotent:
  "(let (m1, r1) = getDynamicModel n r; (m2, r2) = getDynamicModel n r1 in m2 = m1 \<and> r2 = r1)
   \<and> (\<forall>i j. i < length ns \<and> j < length ns \<and> sanitize (ns ! i) = sanitize (ns ! j) \<longrightarrow>
          fst (getDynamicModels ns r) ! i = fst (getDynamicModels ns r) ! j)"
proof (intro conjI allI impI)
  have "getDynamicModel n (snd (getDynamicModel n r)) = (fst (getDynamicModel n r), snd (getDynamicModel n r))"
    by (rule getDynamicModel_hit) (rule getDynamicModel_entry)
  then show "let (m1, r1) = getDynamicModel n r; (m2, r2) = getDynamicModel n r1 in m2 = m1 \<and> r2 = r1"
    by (simp add: split_beta Let_def)
next
  fix i j
  assume h: "i < length ns \<and> j < length ns \<and> sanitize (ns ! i) = sanitize (ns ! j)"
  consider "i < j" | "i = j" | "j < i" by arith
  then show "fst (getDynamicModels ns r) ! i = fst (getDynamicModels ns r) ! j"
  proof cases
    case 1
    with h show ?thesis by (simp add: getDynamicModels_same)
  next
    case 2
    then show ?thesis by simp
  next
    case 3
    with h have "fst (getDynamicModels ns r) ! j = fst (getDynamicModels ns r) ! i"
      by (simp add: getDynamicModels_same)
    then show ?thesis by simp
  qed
qed

theorem getDynamicModel_idempotent_witness:
  "fst (getDynamicModels [''posts'', ''users'', ''posts''] initial_registry) ! 0
     = fst (getDynamicModels [''posts'', ''users'', ''posts''] initial_registry) ! 2
   \<and> sanitize ''posts'' = ''posts''"
  using getDynamicModel_idempotent [of "''posts''" initial_registry "[''posts'', ''users'', ''posts'']"]
  by (simp add: sanitize_def isNameChar_def)

text \<open>
  Claim C9. A name the validator accepts is a fixed point of the sanitization, so
  \<open>getDynamicModel\<close> files the handle under the raw name, and a handle it creates has the
  raw name as its collection and model name.
\<close>

theorem validated_name_is_registry_key:
  assumes "isValidCollectionName n"
  shows "sanitize n = n
    \<and> dynamicModels (snd (getDynamicModel n r)) n = Some (fst (getDynamicModel n r))
    \<and> (dynamicModels r n = None \<longrightarrow>
         collection (fst (getDynamicModel n r)) = n \<and> modelName (fst (getDynamicModel n r)) = n)"
proof -
  from assms have s: "sanitize n = n" by (rule sanitize_valid)
  from getDynamicModel_entry [of n r] s
  have "dynamicModels (snd (getDynamicModel n r)) n = Some (fst (getDynamicModel n r))" by simp
  moreover have "collection (fst (getDynamicModel n r)) = n \<and> modelName (fst (getDynamicModel n r)) = n"
    if "dynamicModels r n = None"
    using that s by (simp add: getDynamicModel_def Let_def)
  ultimately show ?thesis using s by blast
qed

theorem validated_name_is_registry_key_witness:
  "isValidCollectionName ''my-posts_2'' \<and> sanitize ''my-posts_2'' = ''my-posts_2''
   \<and> collection (fst (getDynamicModel ''my-posts_2'' initial_registry)) = ''my-posts_2''"
  using validated_name_is_registry_key [of "''my-posts_2''" initial_registry]
  by (simp add: isValidCollectionName_def isNameChar_def initial_registry_def)

section \<open>Properties of the query translator\<close>

lemma limit_step:
  "limit (options (step (k, v) b)) =
     (if k = ''_limit'' then math_min (or_default (parseInt v) 100) 1000 else limit (options b))"
  by (simp add: step_def Let_def)

lemma skip_step:
  "skip (options (step (k, v) b)) =
     (if k = ''_skip'' \<or> k = ''_offset'' then math_max (or_default (parseInt v) 0) 0
      else skip (options b))"
  by (simp add: step_def Let_def)

lemma sortBy_step:
  "sortBy (options (step (k, v) b)) =
     (if k = ''_sort'' then (if startsWith v ''-'' then (tl v, - 1) else (v, 1))
      else sortBy (options b))"
  by (simp add: step_def Let_def)

lemma limit_fold_other:
  "''_limit'' \<notin> fst ` set qs \<Longrightarrow> limit (options (fold step qs b)) = limit (options b)"
proof (induction qs arbitrary: b)
  case Nil
  show ?case by simp
next
  case (Cons p qs)
  obtain k v where p: "p = (k, v)" by (cases p)
  with Cons.prems have "k \<noteq> ''_limit''" and "''_limit'' \<notin> fst ` set qs" by auto
  with Cons.IH [of "step p b"] p show ?case by (simp add: limit_step)
qed

lemma sortBy_fold_other:
  "''_sort'' \<notin> fst ` set qs \<Longrightarrow> sortBy (options (fold step qs b)) = sortBy (options b)"
proof (induction qs arbitrary: b)
  case Nil
  show ?case by simp
next
  case (Cons p qs)
  obtain k v where p: "p = (k, v)" by (cases p)
  with Cons.prems have "k \<noteq> ''_sort''" and "''_sort'' \<notin> fst ` set qs" by auto
  with Cons.IH [of "step p b"] p show ?case by (simp add: sortBy_step)
qed

lemma entry_split:
  assumes "distinct (map fst ps)" and "(k, v) \<in> set ps"
  shows "\<exists>xs ys. ps = xs @ (k, v) # ys \<and> k \<notin> fst ` set ys"
proof -
  from assms(2) obtain xs ys where ps: "ps = xs @ (k, v) # ys"
    by (auto dest: split_list)
  with assms(1) have "k \<notin> fst ` set ys" by auto
  with ps show ?thesis by blast
qed

lemma limit_last:
  "''_limit'' \<notin> fst ` set qs \<Longrightarrow>
   limit (options (buildQuery (ps @ (''_limit'', v) # qs)))
     = math_min (or_default (parseInt v) 100) 1000"
  by (simp add: buildQuery_def limit_fold_other limit_step)

lemma sortBy_last:
  "''_sort'' \<notin> fst ` set qs \<Longrightarrow>
   sortBy (options (buildQuery (ps @ (''_sort'', v) # qs))) =
     (if startsWith v ''-'' then (tl v, - 1) else (v, 1))"
  by (simp add: buildQuery_def sortBy_fold_other sortBy_step)

lemma parseInt_digits:
  "parseInt ''5000'' = Num 5000" "parseInt ''-5'' = Num (- 5)" "parseInt ''5'' = Num 5"
  "parseInt ''10'' = Num 10"
  by (simp_all add: parseInt_def toNumber_def isStrWhiteSpace_def isRadixDigit_def
      digitValue_def mathInt_def)

text \<open>
  What the limit is, for a mapping with distinct keys: 100 when \<open>_limit\<close> is absent, is
  not numeric or parses to 0; the parse capped at 1000 otherwise. It is never above 1000,
  and it lies between 1 and 1000 whenever the parse is not negative.
\<close>

lemma buildQuery_limit_value:
  assumes "distinct (map fst queryParams)"
  shows "(''_limit'' \<notin> fst ` set queryParams \<longrightarrow>
            limit (options (buildQuery queryParams)) = Num 100)
     \<and> (\<forall>v. (''_limit'', v) \<in> set queryParams \<longrightarrow>
          limit (options (buildQuery queryParams)) =
            (case parseInt v of
               NaN \<Rightarrow> Num 100
             | Num n \<Rightarrow> if n = 0 then Num 100 else Num (min n 1000)
             | Huge \<Rightarrow> Num 1000
             | NegHuge \<Rightarrow> NegHuge))
     \<and> ((''_limit'', ''5000'') \<in> set queryParams \<longrightarrow>
          limit (options (buildQuery queryParams)) = Num 1000)
     \<and> limit (options (buildQuery queryParams)) \<noteq> Huge
     \<and> (\<forall>n. limit (options (buildQuery queryParams)) = Num n \<longrightarrow> n \<le> 1000)
     \<and> ((\<forall>v. (''_limit'', v) \<in> set queryParams \<longrightarrow>
             parseInt v \<noteq> NegHuge \<and> (\<forall>n. parseInt v = Num n \<longrightarrow> 0 \<le> n)) \<longrightarrow>
          (\<exists>n. limit (options (buildQuery queryParams)) = Num n \<and> 1 \<le> n \<and> n \<le> 1000))"
proof -
  let ?l = "limit (options (buildQuery queryParams))"
  let ?r = "\<lambda>v. case parseInt v of
               NaN \<Rightarrow> Num 100
             | Num n \<Rightarrow> if n = 0 then Num 100 else Num (min n 1000)
             | Huge \<Rightarrow> Num 1000
             | NegHuge \<Rightarrow> NegHuge"
  have absent: "?l = Num 100" if "''_limit'' \<notin> fst ` set queryParams"
    using that by (simp add: buildQuery_def limit_fold_other initial_built_def)
  have present: "?l = ?r v" if "(''_limit'', v) \<in> set queryParams" for v
  proof -
    from entry_split [OF assms that] obtain xs ys
      where "queryParams = xs @ (''_limit'', v) # ys" and "''_limit'' \<notin> fst ` set ys" by blast
    then show ?thesis
      by (simp add: limit_last or_default_def math_min_def split: number.split)
  qed
  have five: "?l = Num 1000" if "(''_limit'', ''5000'') \<in> set queryParams"
    using present [OF that] by (simp add: parseInt_digits)
  have cases: "?l = Num 100 \<or> (\<exists>v. (''_limit'', v) \<in> set queryParams \<and> ?l = ?r v)"
    using absent present by fastforce
  have r: "?r v \<noteq> Huge \<and> (\<forall>n. ?r v = Num n \<longrightarrow> n \<le> 1000)" for v
    by (cases "parseInt v") simp_all
  have not_huge: "?l \<noteq> Huge"
    using cases r by auto
  have upper: "n \<le> 1000" if "?l = Num n" for n
    using cases r that by auto
  have lower: "\<exists>n. ?l = Num n \<and> 1 \<le> n \<and> n \<le> 1000"
    if h: "\<forall>v. (''_limit'', v) \<in> set queryParams \<longrightarrow>
             parseInt v \<noteq> NegHuge \<and> (\<forall>n. parseInt v = Num n \<longrightarrow> 0 \<le> n)"
    using cases
  proof
    assume "?l = Num 100"
    then show ?thesis by simp
  next
    assume "\<exists>v. (''_limit'', v) \<in> set queryParams \<and> ?l = ?r v"
    then obtain v where v: "(''_limit'', v) \<in> set queryParams" and l: "?l = ?r v" by blast
    from h v have "parseInt v \<noteq> NegHuge" and "\<forall>n. parseInt v = Num n \<longrightarrow> 0 \<le> n" by simp_all
    with l show ?thesis by (cases "parseInt v") auto
  qed
  from absent present five not_huge upper lower show ?thesis by blast
qed

text \<open>
  Claim C1. The claim asks for a limit between 1 and 1000 for every mapping. At
  \<open>_limit=-5\<close> the code returns the limit \<open>-5\<close>, and at \<open>_limit=-5000\<close> the limit
  \<open>-5000\<close>: \<open>Math.min\<close> caps the parse at 1000 and nothing bounds it from below, where
  the branch for \<open>_skip\<close> next to it bounds its parse from below with \<open>Math.max\<close>.
\<close>

theorem buildQuery_limit_negative:
  "limit (options (buildQuery [(''_limit'', ''-5'')])) = Num (- 5)
   \<and> limit (options (buildQuery [(''_limit'', ''-5000'')])) = Num (- 5000)
   \<and> skip (options (buildQuery [(''_skip'', ''-5'')])) = Num 0"
  by (simp add: buildQuery_def step_def initial_built_def parseInt_def toNumber_def
      or_default_def math_min_def math_max_def isStrWhiteSpace_def isRadixDigit_def
      digitValue_def mathInt_def)

section \<open>Properties of the handlers\<close>

lemma isNameChar_iff:
  "isNameChar c \<longleftrightarrow>
     c \<in> set ''abcdefghijklmnopqrstuvwxyzABCDEFGHIJKLMNOPQRSTUVWXYZ0123456789_-''"
proof (cases c)
  case (Char b0 b1 b2 b3 b4 b5 b6 b7)
  show ?thesis unfolding Char
    by (cases b0; cases b1; cases b2; cases b3; cases b4; cases b5; cases b6; cases b7;
        simp add: isNameChar_def Let_def)
qed

text \<open>
  Claim C5. The validator accepts a string if and only if each of its characters is one of
  \<open>a-z\<close>, \<open>A-Z\<close>, \<open>0-9\<close>, \<open>_\<close>, \<open>-\<close> and its length is between 1 and 50; and
  each of the seven handlers of a route with a \<open>:collection\<close> segment answers a rejected
  name with status 400 and the error \<open>Invalid collection name\<close>, having made no store call
  and left the registry untouched.
\<close>

theorem invalid_collection_name_rejected:
  "(isValidCollectionName n \<longleftrightarrow>
      (\<forall>c \<in> set n. c \<in> set ''abcdefghijklmnopqrstuvwxyzABCDEFGHIJKLMNOPQRSTUVWXYZ0123456789_-'')
      \<and> 1 \<le> length n \<and> length n \<le> 50)
   \<and> (\<not> isValidCollectionName n \<longrightarrow>
        (\<forall>h \<in> {get_collection st r n reqQuery, get_document st r n docId,
                post_collection st r n reqBody, put_document st r n docId reqBody,
                patch_document st r n docId reqBody, delete_document st r n docId,
                delete_collection st r n}.
           h = \<lparr>response = \<lparr>status = 400, body = ErrorBody ''Invalid collection name''\<rparr>,
                registry_after = r, store_calls = []\<rparr>))"
proof (intro conjI impI)
  show "isValidCollectionName n \<longleftrightarrow>
      (\<forall>c \<in> set n. c \<in> set ''abcdefghijklmnopqrstuvwxyzABCDEFGHIJKLMNOPQRSTUVWXYZ0123456789_-'')
      \<and> 1 \<le> length n \<and> length n \<le> 50"
    unfolding isValidCollectionName_iff list_all_iff isNameChar_iff ..
next
  assume "\<not> isValidCollectionName n"
  then show "\<forall>h \<in> {get_collection st r n reqQuery, get_document st r n docId,
                post_collection st r n reqBody, put_document st r n docId reqBody,
                patch_document st r n docId reqBody, delete_document st r n docId,
                delete_collection st r n}.
           h = \<lparr>response = \<lparr>status = 400, body = ErrorBody ''Invalid collection name''\<rparr>,
                registry_after = r, store_calls = []\<rparr>"
    by (simp add: get_collection_def get_document_def post_collection_def put_document_def
        patch_document_def delete_document_def delete_collection_def reply_def)
qed


theorem invalid_collection_name_rejected_witness:
  "\<not> isValidCollectionName ''a.b''
   \<and> post_collection empty_store initial_registry ''a.b'' (Some [(''title'', ''x'')]) =
       \<lparr>response = \<lparr>status = 400, body = ErrorBody ''Invalid collection name''\<rparr>,
        registry_after = initial_registry, store_calls = []\<rparr>"
proof -
  have a: "\<not> isValidCollectionName ''a.b''"
    by (simp add: isValidCollectionName_def isNameChar_def)
  from a invalid_collection_name_rejected [of "''a.b''" empty_store initial_registry "[]" "[]"
      "Some [(''title'', ''x'')]"]
  show ?thesis by simp
qed

lemma startsWith_iff: "startsWith s p \<longleftrightarrow> (\<exists>rest. s = p @ rest)"
  unfolding startsWith_def by (metis append_eq_conv_conj append_take_drop_id)

lemma sortBy_initial: "sortBy (options initial_built) = (''createdAt'', - 1)"
  by (simp add: initial_built_def)

section \<open>The sort option\<close>

text \<open>
  Claim C8. With no \<open>_sort\<close> key the sort is descending (\<open>-1\<close>) on \<open>createdAt\<close>. The
  last \<open>_sort\<close> entry decides the sort, whatever came before it: a value starting with
  \<open>-\<close> gives descending order on the rest of the value, any other value ascending order
  (\<open>1\<close>) on the value. The sort option is one pair of a field and a direction.
\<close>

theorem buildQuery_sort:
  "(''_sort'' \<notin> fst ` set ps \<longrightarrow> sortBy (options (buildQuery ps)) = (''createdAt'', - 1))
   \<and> (''_sort'' \<notin> fst ` set qs \<longrightarrow>
        sortBy (options (buildQuery (ps @ (''_sort'', v) # qs))) =
          (case v of [] \<Rightarrow> ([], 1)
           | c # rest \<Rightarrow> if c = CHR ''-'' then (rest, - 1) else (v, 1)))
   \<and> (distinct (map fst ps) \<and> (''_sort'', v) \<in> set ps \<longrightarrow>
        sortBy (options (buildQuery ps)) =
          (case v of [] \<Rightarrow> ([], 1)
           | c # rest \<Rightarrow> if c = CHR ''-'' then (rest, - 1) else (v, 1)))"
proof -
  let ?s = "case v of [] \<Rightarrow> ([], 1) | c # rest \<Rightarrow> if c = CHR ''-'' then (rest, - 1) else (v, 1 :: int)"
  have eq: "(if startsWith v ''-'' then (tl v, - 1) else (v, 1)) = ?s"
    by (cases v) (simp_all add: startsWith_def)
  have absent: "sortBy (options (buildQuery ps)) = (''createdAt'', - 1)"
    if "''_sort'' \<notin> fst ` set ps"
    using that by (simp add: buildQuery_def sortBy_fold_other sortBy_initial)
  have last: "sortBy (options (buildQuery (xs @ (''_sort'', v) # ys))) = ?s"
    if "''_sort'' \<notin> fst ` set ys" for xs ys
    using that eq by (simp add: sortBy_last)
  have present: "sortBy (options (buildQuery ps)) = ?s"
    if "distinct (map fst ps) \<and> (''_sort'', v) \<in> set ps"
  proof -
    from that entry_split [of ps "''_sort''" v] obtain xs ys
      where "ps = xs @ (''_sort'', v) # ys" and "''_sort'' \<notin> fst ` set ys" by blast
    with last show ?thesis by simp
  qed
  from absent last present show ?thesis by blast
qed

theorem buildQuery_sort_witness:
  "sortBy (options (buildQuery [(''_sort'', ''price''), (''_sort'', ''-price''), (''a'', ''b'')]))
     = (''price'', - 1)
   \<and> sortBy (options (buildQuery [(''_sort'', ''price''), (''a'', ''b'')])) = (''price'', 1)
   \<and> sortBy (options (buildQuery [(''a'', ''b'')])) = (''createdAt'', - 1)"
  using buildQuery_sort [where ps = "[(''_sort'', ''price'')]" and v = "''-price''" and qs = "[(''a'', ''b'')]"]
    buildQuery_sort [where ps = "[(''_sort'', ''price''), (''a'', ''b'')]" and v = "''price''" and qs = "[]"]
    buildQuery_sort [where ps = "[(''a'', ''b'')]" and v = "''price''" and qs = "[]"]
  by simp

section \<open>The collections listing\<close>

lemma filter_not_startsWith:
  "filter (\<lambda>n. \<not> startsWith n p) xs = filter (\<lambda>n. \<nexists>rest. n = p @ rest) xs"
  by (simp only: startsWith_iff)

text \<open>
  Claim C10. When the store lists its collections, \<open>GET /collections\<close> answers 200 with
  the names that do not start with \<open>system.\<close>, in the store's order, and with their
  number as \<open>count\<close>; whenever the handler sends a list, no name in it starts with
  \<open>system.\<close> and \<open>count\<close> is the length of the list.
\<close>

theorem get_collections_lists_non_system:
  "(listCollections st = Inr cs \<longrightarrow>
      response (get_collections st r) =
        \<lparr>status = 200,
         body = CollectionsBody
                  (length (filter (\<lambda>n. \<not> startsWith n ''system.'') (map cname cs)))
                  (filter (\<lambda>n. \<not> startsWith n ''system.'') (map cname cs))\<rparr>)
   \<and> (body (response (get_collections st r)) = CollectionsBody k names \<longrightarrow>
        k = length names
        \<and> (\<forall>n \<in> set names. \<nexists>rest. n = ''system.'' @ rest)
        \<and> (\<exists>cs. listCollections st = Inr cs
               \<and> names = filter (\<lambda>n. \<nexists>rest. n = ''system.'' @ rest) (map cname cs)))"
proof (intro conjI impI)
  assume "listCollections st = Inr cs"
  then show "response (get_collections st r) =
        \<lparr>status = 200,
         body = CollectionsBody
                  (length (filter (\<lambda>n. \<not> startsWith n ''system.'') (map cname cs)))
                  (filter (\<lambda>n. \<not> startsWith n ''system.'') (map cname cs))\<rparr>"
    by (simp add: get_collections_def reply_def Let_def)
next
  assume b: "body (response (get_collections st r)) = CollectionsBody k names"
  then obtain cs where cs: "listCollections st = Inr cs"
    by (cases "listCollections st") (simp_all add: get_collections_def reply_def)
  define ns where "ns = filter (\<lambda>n. \<not> startsWith n ''system.'') (map cname cs)"
  from cs have "body (response (get_collections st r)) = CollectionsBody (length ns) ns"
    by (simp add: get_collections_def reply_def Let_def ns_def)
  with b have kn: "k = length ns" "names = ns"
    by auto
  then have names: "names = filter (\<lambda>n. \<nexists>rest. n = ''system.'' @ rest) (map cname cs)"
    by (simp only: ns_def filter_not_startsWith)
  show "k = length names" using kn(1) kn(2) by (simp only:)
  show "\<forall>n \<in> set names. \<nexists>rest. n = ''system.'' @ rest"
    unfolding names by (simp only: set_filter) blast
  show "\<exists>cs. listCollections st = Inr cs
               \<and> names = filter (\<lambda>n. \<nexists>rest. n = ''system.'' @ rest) (map cname cs)"
    using cs names by blast
qed


theorem get_collections_lists_non_system_witness:
  "response (get_collections empty_store initial_registry)
     = \<lparr>status = 200, body = CollectionsBody 2 [''posts'', ''users'']\<rparr>"
  using get_collections_lists_non_system [where st = empty_store and r = initial_registry
      and cs = "[\<lparr>cname = ''posts''\<rparr>, \<lparr>cname = ''system.indexes''\<rparr>, \<lparr>cname = ''users''\<rparr>]",
      THEN conjunct1]
  by (simp add: startsWith_def empty_store_def)

section \<open>Store failures\<close>

text \<open>
  Claim C3, amended. In each of the seven handlers of a route under \<open>/:collection\<close>, once
  the request has passed the handler's checks, a store operation that fails with a message
  gives a 500 response whose error string is that message, unchanged. The collections
  listing answers a store failure with 500 and the fixed error
  \<open>Failed to fetch collections\<close>.
\<close>

theorem store_failure_surfaces_as_500:
  assumes "isValidCollectionName n"
  shows
    "(findDocs st (fst (getDynamicModel n r)) (query (buildQuery q)) (options (buildQuery q)) = Inl msg
        \<longrightarrow> response (get_collection st r n q) = \<lparr>status = 500, body = ErrorBody msg\<rparr>)
     \<and> (findDocs st (fst (getDynamicModel n r)) (query (buildQuery q)) (options (buildQuery q)) = Inr docs
          \<and> countDocuments st (fst (getDynamicModel n r)) (query (buildQuery q)) = Inl msg
        \<longrightarrow> response (get_collection st r n q) = \<lparr>status = 500, body = ErrorBody msg\<rparr>)
     \<and> (objectIdIsValid st i \<and> findById st (fst (getDynamicModel n r)) i = Inl msg
        \<longrightarrow> response (get_document st r n i) = \<lparr>status = 500, body = ErrorBody msg\<rparr>)
     \<and> (entries \<noteq> [] \<and> save st (fst (getDynamicModel n r)) entries = Inl msg
        \<longrightarrow> response (post_collection st r n (Some entries)) = \<lparr>status = 500, body = ErrorBody msg\<rparr>)
     \<and> (objectIdIsValid st i \<and> entries \<noteq> []
          \<and> findByIdAndUpdate st (fst (getDynamicModel n r)) i (Overwrite entries) = Inl msg
        \<longrightarrow> response (put_document st r n i (Some entries)) = \<lparr>status = 500, body = ErrorBody msg\<rparr>)
     \<and> (objectIdIsValid st i \<and> entries \<noteq> []
          \<and> findByIdAndUpdate st (fst (getDynamicModel n r)) i (SetFields entries) = Inl msg
        \<longrightarrow> response (patch_document st r n i (Some entries)) = \<lparr>status = 500, body = ErrorBody msg\<rparr>)
     \<and> (objectIdIsValid st i \<and> findByIdAndDelete st (fst (getDynamicModel n r)) i = Inl msg
        \<longrightarrow> response (delete_document st r n i) = \<lparr>status = 500, body = ErrorBody msg\<rparr>)
     \<and> (deleteMany st (fst (getDynamicModel n r)) = Inl msg
        \<longrightarrow> response (delete_collection st r n) = \<lparr>status = 500, body = ErrorBody msg\<rparr>)
     \<and> (listCollections st = Inl msg
        \<longrightarrow> response (get_collections st r) =
              \<lparr>status = 500, body = ErrorBody ''Failed to fetch collections''\<rparr>)"
proof (intro conjI impI)
  note defs = reply_def split_beta Let_def bodyIsEmpty_def
  show "response (get_collection st r n q) = \<lparr>status = 500, body = ErrorBody msg\<rparr>"
    if "findDocs st (fst (getDynamicModel n r)) (query (buildQuery q)) (options (buildQuery q)) = Inl msg"
    using assms that by (simp add: get_collection_def defs)
  show "response (get_collection st r n q) = \<lparr>status = 500, body = ErrorBody msg\<rparr>"
    if "findDocs st (fst (getDynamicModel n r)) (query (buildQuery q)) (options (buildQuery q)) = Inr docs
          \<and> countDocuments st (fst (getDynamicModel n r)) (query (buildQuery q)) = Inl msg"
    using assms that by (simp add: get_collection_def defs)
  show "response (get_document st r n i) = \<lparr>status = 500, body = ErrorBody msg\<rparr>"
    if "objectIdIsValid st i \<and> findById st (fst (getDynamicModel n r)) i = Inl msg"
    using assms that by (simp add: get_document_def defs)
  show "response (post_collection st r n (Some entries)) = \<lparr>status = 500, body = ErrorBody msg\<rparr>"
    if "entries \<noteq> [] \<and> save st (fst (getDynamicModel n r)) entries = Inl msg"
    using assms that by (simp add: post_collection_def defs)
  show "response (put_document st r n i (Some entries)) = \<lparr>status = 500, body = ErrorBody msg\<rparr>"
    if "objectIdIsValid st i \<and> entries \<noteq> []
          \<and> findByIdAndUpdate st (fst (getDynamicModel n r)) i (Overwrite entries) = Inl msg"
    using assms that by (simp add: put_document_def defs)
  show "response (patch_document st r n i (Some entries)) = \<lparr>status = 500, body = ErrorBody msg\<rparr>"
    if "objectIdIsValid st i \<and> entries \<noteq> []
          \<and> findByIdAndUpdate st (fst (getDynamicModel n r)) i (SetFields entries) = Inl msg"
    using assms that by (simp add: patch_document_def defs)
  show "response (delete_document st r n i) = \<lparr>status = 500, body = ErrorBody msg\<rparr>"
    if "objectIdIsValid st i \<and> findByIdAndDelete st (fst (getDynamicModel n r)) i = Inl msg"
    using assms that by (simp add: delete_document_def defs)
  show "response (delete_collection st r n) = \<lparr>status = 500, body = ErrorBody msg\<rparr>"
    if "deleteMany st (fst (getDynamicModel n r)) = Inl msg"
    using assms that by (simp add: delete_collection_def defs)
  show "response (get_collections st r) =
              \<lparr>status = 500, body = ErrorBody ''Failed to fetch collections''\<rparr>"
    if "listCollections st = Inl msg"
    using that by (simp add: get_collections_def defs)
qed

theorem store_failure_surfaces_as_500_witness:
  "isValidCollectionName ''posts''
   \<and> response (post_collection (failing_store ''boom'') initial_registry ''posts''
                 (Some [(''title'', ''x'')]))
       = \<lparr>status = 500, body = ErrorBody ''boom''\<rparr>
   \<and> response (get_collection (failing_store ''boom'') initial_registry ''posts'' [(''a'', ''b'')])
       = \<lparr>status = 500, body = ErrorBody ''boom''\<rparr>"
proof -
  have v: "isValidCollectionName ''posts''"
    by (simp add: isValidCollectionName_def isNameChar_def)
  from store_failure_surfaces_as_500 [OF v, where st = "failing_store ''boom''"
      and r = initial_registry and msg = "''boom''" and entries = "[(''title'', ''x'')]"
      and q = "[(''a'', ''b'')]"]
  show ?thesis using v by (simp add: failing_store_def)
qed

text \<open>
  The collections listing does not pass the store's message on: when the store fails with
  \<open>boom\<close>, the error string of the response is not \<open>boom\<close>.
\<close>

theorem store_failure_verbatim_counterexample:
  "listCollections (failing_store ''boom'') = Inl ''boom''
   \<and> response (get_collections (failing_store ''boom'') initial_registry)
       \<noteq> \<lparr>status = 500, body = ErrorBody ''boom''\<rparr>"
  by (simp add: failing_store_def get_collections_def reply_def)

section \<open>Range and not-equal keys\<close>


lemma endsWith_append: "endsWith (f @ p) p"
  by (simp add: endsWith_def)

lemma endsWith_iff: "endsWith s p \<longleftrightarrow> (\<exists>f. s = f @ p)"
proof
  assume "endsWith s p"
  then have "s = take (length s - length p) s @ p"
    by (metis append_take_drop_id endsWith_def)
  then show "\<exists>f. s = f @ p" ..
next
  assume "\<exists>f. s = f @ p"
  then show "endsWith s p" by (auto simp add: endsWith_append)
qed

lemma endsWith_last: "endsWith s p \<Longrightarrow> p \<noteq> [] \<Longrightarrow> s \<noteq> [] \<and> last s = last p"
  by (auto simp add: endsWith_iff)

lemma range_key_not_special:
  assumes "endsWith key ''_gte'' \<or> endsWith key ''_lte'' \<or> endsWith key ''_ne''"
  shows "key \<noteq> ''_limit'' \<and> key \<noteq> ''_skip'' \<and> key \<noteq> ''_offset'' \<and> key \<noteq> ''_sort''
         \<and> key \<noteq> ''_search''"
proof -
  from assms have "key \<noteq> [] \<and> last key = CHR ''e''"
    by (auto dest: endsWith_last)
  then show ?thesis by auto
qed

lemma gte_not_lte: "endsWith key ''_gte'' \<Longrightarrow> \<not> endsWith key ''_lte''"
  by (auto simp add: endsWith_def)


lemma step_gte:
  "endsWith key ''_gte'' \<Longrightarrow>
   step (key, v) b =
     b\<lparr>query := set_prop (query b) (slice0 key 4)
                  (Obj ((spread (get_prop (query b) (slice0 key 4)))(''$gte'' \<mapsto> v)))\<rparr>"
  using range_key_not_special [of key] by (simp add: step_def Let_def)

lemma step_lte:
  "endsWith key ''_lte'' \<Longrightarrow>
   step (key, v) b =
     b\<lparr>query := set_prop (query b) (slice0 key 4)
                  (Obj ((spread (get_prop (query b) (slice0 key 4)))(''$lte'' \<mapsto> v)))\<rparr>"
  using range_key_not_special [of key] gte_not_lte [of key] by (auto simp add: step_def Let_def)










section \<open>The order of the entries\<close>

lemma step_effect: "step kv b = apply_effect (effect_of kv) b"
  by (simp add: step_def effect_of_def Let_def)

lemma effect_slot_of: "effect_slot (effect_of (k, v)) = slot_of k"
  by (simp add: effect_of_def slot_of_def)

lemma get_prop_set_other:
  "f1 \<noteq> f2 \<Longrightarrow> f2 \<noteq> ''__proto__'' \<Longrightarrow> get_prop (set_prop q f2 v) f1 = get_prop q f1"
  by (simp add: get_prop_def set_prop_def split: option.split)

lemma set_prop_twist:
  "f1 \<noteq> f2 \<Longrightarrow> f1 \<noteq> ''__proto__'' \<Longrightarrow> f2 \<noteq> ''__proto__'' \<Longrightarrow>
   set_prop (set_prop q f1 v1) f2 v2 = set_prop (set_prop q f2 v2) f1 v1"
  by (simp add: set_prop_def fun_upd_twist)

lemma set_prop_again:
  "f \<noteq> ''__proto__'' \<Longrightarrow> set_prop (set_prop q f v1) f v2 = set_prop q f v2"
  by (simp add: set_prop_def)

lemma get_prop_set_same:
  "f \<noteq> ''__proto__'' \<Longrightarrow> get_prop (set_prop q f v) f = Some v"
  by (simp add: get_prop_def set_prop_def)

lemma apply_effect_commute:
  assumes "effect_slot e1 \<noteq> effect_slot e2"
    and "effect_slot e1 \<noteq> Some (FieldSlot ''__proto__'')"
    and "effect_slot e2 \<noteq> Some (FieldSlot ''__proto__'')"
  shows "apply_effect e1 (apply_effect e2 b) = apply_effect e2 (apply_effect e1 b)"
proof (cases e1)
  case (SetField f1 g1)
  show ?thesis
  proof (cases e2)
    case (SetField f2 g2)
    with \<open>e1 = SetField f1 g1\<close> assms
    have d: "f1 \<noteq> f2" "f1 \<noteq> ''__proto__''" "f2 \<noteq> ''__proto__''" by simp_all
    from d have "get_prop (set_prop (query b) f2 (g2 (get_prop (query b) f2))) f1 = get_prop (query b) f1"
      by (simp add: get_prop_set_other)
    moreover from d have "get_prop (set_prop (query b) f1 (g1 (get_prop (query b) f1))) f2 = get_prop (query b) f2"
      by (simp add: get_prop_set_other)
    ultimately show ?thesis
      using \<open>e1 = SetField f1 g1\<close> SetField d
      by (simp add: set_prop_twist [of f1 f2])
  qed (simp_all add: \<open>e1 = SetField f1 g1\<close>)
next
  case NoEffect
  then show ?thesis by simp
next
  case (SetLimit n)
  with assms show ?thesis by (cases e2) simp_all
next
  case (SetSkip n)
  with assms show ?thesis by (cases e2) simp_all
next
  case (SetSort s)
  with assms show ?thesis by (cases e2) simp_all
qed


lemma range_pair_commute:
  assumes "endsWith k1 ''_gte''" and "endsWith k2 ''_lte''" and "slice0 k1 4 = slice0 k2 4"
    and "slice0 k1 4 \<noteq> ''__proto__''"
  shows "step (k1, v1) (step (k2, v2) b) = step (k2, v2) (step (k1, v1) b)"
proof -
  let ?f = "slice0 k1 4"
  have tw: "(m(''$lte'' \<mapsto> v2))(''$gte'' \<mapsto> v1) = (m(''$gte'' \<mapsto> v1))(''$lte'' \<mapsto> v2)" for m
    by (rule fun_upd_twist) simp
  from assms show ?thesis
    by (simp add: step_gte step_lte get_prop_set_same set_prop_again tw)
qed

lemma slot_of_range_key: "range_key k \<Longrightarrow> slot_of k = Some (FieldSlot (slice0 k 4))"
  using range_key_not_special [of k] by (auto simp add: slot_of_def range_key_def)

lemma range_key_same_slot:
  assumes "range_key k1" and "range_key k2" and "k1 \<noteq> k2" and "slot_of k1 = slot_of k2"
  shows "(endsWith k1 ''_gte'' \<and> endsWith k2 ''_lte'' \<or> endsWith k1 ''_lte'' \<and> endsWith k2 ''_gte'')
         \<and> slice0 k1 4 = slice0 k2 4"
proof -
  from assms slot_of_range_key have eq: "slice0 k1 4 = slice0 k2 4" by simp
  have key: "k = slice0 k 4 @ p" if "endsWith k p" "length p = 4" for k p
    using that by (metis append_take_drop_id endsWith_def slice0_def)
  have "\<not> (endsWith k1 p \<and> endsWith k2 p)" if "length p = 4" for p
    using key [of k1 p] key [of k2 p] eq that assms(3) by auto
  from this [of "''_gte''"] this [of "''_lte''"] assms(1,2) eq show ?thesis
    by (auto simp add: range_key_def)
qed

lemma step_commute:
  assumes "\<not> conflict k1 k2"
    and "slot_of k1 \<noteq> Some (FieldSlot ''__proto__'')"
    and "slot_of k2 \<noteq> Some (FieldSlot ''__proto__'')"
    and "k1 \<noteq> k2"
  shows "step (k1, v1) (step (k2, v2) b) = step (k2, v2) (step (k1, v1) b)"
proof (cases "slot_of k1 = slot_of k2")
  case False
  then have "effect_slot (effect_of (k1, v1)) \<noteq> effect_slot (effect_of (k2, v2))"
    by (simp add: effect_slot_of)
  with assms(2,3) show ?thesis
    by (simp add: step_effect apply_effect_commute effect_slot_of)
next
  case True
  show ?thesis
  proof (cases "slot_of k1")
    case None
    with True have "effect_of (k1, v1) = NoEffect" "effect_of (k2, v2) = NoEffect"
      using effect_slot_of [of k1 v1] effect_slot_of [of k2 v2]
      by (cases "effect_of (k1, v1)"; cases "effect_of (k2, v2)"; simp)+
    then show ?thesis by (simp add: step_effect)
  next
    case (Some s)
    with True assms(1,4) have r: "range_key k1" "range_key k2"
      by (auto simp add: conflict_def)
    from range_key_same_slot [OF r assms(4) True]
    have c: "endsWith k1 ''_gte'' \<and> endsWith k2 ''_lte'' \<or> endsWith k1 ''_lte'' \<and> endsWith k2 ''_gte''"
      and eq: "slice0 k1 4 = slice0 k2 4" by simp_all
    have p: "slice0 k1 4 \<noteq> ''__proto__''"
      using assms(2) slot_of_range_key [OF r(1)] by simp
    from p eq have p': "slice0 k2 4 \<noteq> ''__proto__''" by simp
    from c show ?thesis
    proof
      assume a: "endsWith k1 ''_gte'' \<and> endsWith k2 ''_lte''"
      show ?thesis
        by (rule range_pair_commute [OF conjunct1 [OF a] conjunct2 [OF a] eq p])
    next
      assume a: "endsWith k1 ''_lte'' \<and> endsWith k2 ''_gte''"
      show ?thesis
        by (rule range_pair_commute [OF conjunct2 [OF a] conjunct1 [OF a] eq [symmetric] p',
              symmetric])
    qed
  qed
qed


text \<open>
  Claim C2, amended. Take a mapping with distinct keys in which no two keys are in conflict
  (they write different options or different filter fields, or they are the \<open>_gte\<close> and
  \<open>_lte\<close> keys of one field; \<open>_skip\<close> and \<open>_offset\<close> both write the skip) and no key
  writes the field \<open>__proto__\<close>. Then every rearrangement of its entries yields the same
  filter and the same options.
\<close>

theorem buildQuery_order_independent:
  assumes "distinct (map fst ps)" and "mset qs = mset ps"
    and "\<forall>k1 \<in> fst ` set ps. \<forall>k2 \<in> fst ` set ps. \<not> conflict k1 k2"
    and "\<forall>k \<in> fst ` set ps. slot_of k \<noteq> Some (FieldSlot ''__proto__'')"
  shows "buildQuery qs = buildQuery ps"
proof -
  have "step x \<circ> step y = step y \<circ> step x" if x: "x \<in> set ps" and y: "y \<in> set ps" for x y
  proof (cases "fst x = fst y")
    case True
    with assms(1) x y have "x = y"
      by (metis eq_key_imp_eq_value prod.collapse)
    then show ?thesis by simp
  next
    case False
    from x y assms(3) have "\<not> conflict (fst x) (fst y)" by simp
    moreover from x y assms(4)
    have "slot_of (fst x) \<noteq> Some (FieldSlot ''__proto__'')"
      and "slot_of (fst y) \<noteq> Some (FieldSlot ''__proto__'')" by simp_all
    ultimately have "step (fst x, snd x) (step (fst y, snd y) b)
        = step (fst y, snd y) (step (fst x, snd x) b)" for b
      using False by (rule step_commute)
    then show ?thesis by (simp add: fun_eq_iff)
  qed
  then have "fold step ps = fold step qs"
    using assms(2) [symmetric] by (rule fold_multiset_equiv)
  then show ?thesis by (simp add: buildQuery_def)
qed

theorem buildQuery_order_independent_witness:
  "buildQuery [(''name'', ''x''), (''_limit'', ''10''), (''price_lte'', ''9''), (''price_gte'', ''5'')]
   = buildQuery [(''price_gte'', ''5''), (''price_lte'', ''9''), (''_limit'', ''10''), (''name'', ''x'')]"
proof (rule buildQuery_order_independent)
  show "distinct (map fst [(''price_gte'', ''5''), (''price_lte'', ''9''), (''_limit'', ''10''),
      (''name'', ''x'')])" by simp
  show "mset [(''name'', ''x''), (''_limit'', ''10''), (''price_lte'', ''9''), (''price_gte'', ''5'')]
      = mset [(''price_gte'', ''5''), (''price_lte'', ''9''), (''_limit'', ''10''), (''name'', ''x'')]"
    by simp
  show "\<forall>k1 \<in> fst ` set [(''price_gte'', ''5''), (''price_lte'', ''9''), (''_limit'', ''10''),
      (''name'', ''x'')]. \<forall>k2 \<in> fst ` set [(''price_gte'', ''5''), (''price_lte'', ''9''),
      (''_limit'', ''10''), (''name'', ''x'')]. \<not> conflict k1 k2"
    by (simp add: conflict_def slot_of_def range_key_def endsWith_def startsWith_def slice0_def)
  show "\<forall>k \<in> fst ` set [(''price_gte'', ''5''), (''price_lte'', ''9''), (''_limit'', ''10''),
      (''name'', ''x'')]. slot_of k \<noteq> Some (FieldSlot ''__proto__'')"
    by (simp add: slot_of_def endsWith_def startsWith_def slice0_def)
qed

text \<open>
  The order of the entries matters in general: of \<open>_skip=5\<close> and \<open>_offset=10\<close>, the one
  enumerated last decides the skip.
\<close>

theorem buildQuery_order_counterexample:
  "mset [(''_offset'', ''10''), (''_skip'', ''5'')] = mset [(''_skip'', ''5''), (''_offset'', ''10'')]
   \<and> buildQuery [(''_offset'', ''10''), (''_skip'', ''5'')]
       \<noteq> buildQuery [(''_skip'', ''5''), (''_offset'', ''10'')]"
proof -
  have a: "skip (options (buildQuery [(''_offset'', ''10''), (''_skip'', ''5'')])) = Num 5"
    by (simp add: buildQuery_def skip_step parseInt_digits or_default_def math_max_def)
  have b: "skip (options (buildQuery [(''_skip'', ''5''), (''_offset'', ''10'')])) = Num 10"
    by (simp add: buildQuery_def skip_step parseInt_digits or_default_def math_max_def)
  have "buildQuery [(''_offset'', ''10''), (''_skip'', ''5'')]
       \<noteq> buildQuery [(''_skip'', ''5''), (''_offset'', ''10'')]"
  proof
    assume "buildQuery [(''_offset'', ''10''), (''_skip'', ''5'')]
       = buildQuery [(''_skip'', ''5''), (''_offset'', ''10'')]"
    with a b show False by simp
  qed
  then show ?thesis by simp
qed

section \<open>Properties of the rate limiting\<close>

lemma usesWriteLimiter_iff:
  "usesWriteLimiter m segments \<longleftrightarrow>
     (m = POST \<and> length segments = 1)
     \<or> ((m = PUT \<or> m = PATCH) \<and> length segments = 2)
     \<or> (m = DELETE \<and> (length segments = 1 \<or> length segments = 2))"
  by (cases m) (auto simp add: usesWriteLimiter_def dispatch_def routes_def)

lemma hit_in_window:
  assumes "in_window T (h a) n" and "T \<le> now" and "now < T + 15 * 60 * 1000"
    and "windowMs l = 15 * 60 * 1000"
  shows "fst (hit l h a now) = (n + 1 \<le> maxHits l)"
    and "in_window T (snd (hit l h a now) a) (n + 1)"
  using assms by (auto simp add: hit_def in_window_def Let_def split: option.splits)

lemma hit_other: "a' \<noteq> a \<Longrightarrow> snd (hit l h a' now) a = h a"
  by (simp add: hit_def Let_def)

lemma windows: "windowMs globalLimiter = 15 * 60 * 1000" "windowMs writeLimiter = 15 * 60 * 1000"
  "maxHits globalLimiter = 100" "maxHits writeLimiter = 30"
  by (simp_all add: globalLimiter_def writeLimiter_def)

lemma admit_other:
  "ip rq \<noteq> a \<Longrightarrow>
   globalHits (snd (admit s rq)) a = globalHits s a \<and> writeHits (snd (admit s rq)) a = writeHits s a"
  by (simp add: admit_def split_beta Let_def hit_other)

lemma admit_mine:
  assumes "in_window T (globalHits s (ip rq)) g" and "in_window T (writeHits s (ip rq)) w"
    and "T \<le> time rq" and "time rq < T + 15 * 60 * 1000"
  shows "fst (admit s rq) =
      (if 100 < g + 1 then TooMany (message globalLimiter)
       else if usesWriteLimiter (reqMethod rq) (path rq) \<and> 30 < w + 1
         then TooMany (message writeLimiter)
       else Dispatched)"
    and "in_window T (globalHits (snd (admit s rq)) (ip rq)) (g + 1)"
    and "in_window T (writeHits (snd (admit s rq)) (ip rq))
           (if g + 1 \<le> 100 \<and> usesWriteLimiter (reqMethod rq) (path rq) then w + 1 else w)"
proof -
  note g = hit_in_window [where h = "globalHits s" and a = "ip rq", OF assms(1) assms(3) assms(4) windows(1)]
  note w = hit_in_window [where h = "writeHits s" and a = "ip rq", OF assms(2) assms(3) assms(4) windows(2)]
  show "fst (admit s rq) =
      (if 100 < g + 1 then TooMany (message globalLimiter)
       else if usesWriteLimiter (reqMethod rq) (path rq) \<and> 30 < w + 1
         then TooMany (message writeLimiter)
       else Dispatched)"
    using g(1) w(1) by (auto simp add: admit_def split_beta Let_def windows)
  show "in_window T (globalHits (snd (admit s rq)) (ip rq)) (g + 1)"
    using g(2) by (simp add: admit_def split_beta Let_def)
  show "in_window T (writeHits (snd (admit s rq)) (ip rq))
           (if g + 1 \<le> 100 \<and> usesWriteLimiter (reqMethod rq) (path rq) then w + 1 else w)"
    using g(1) w(2) assms(2) by (simp add: admit_def split_beta Let_def windows)
qed


lemma admit_all_verdict:
  assumes "\<forall>rq \<in> set rqs. ip rq = a \<longrightarrow> T \<le> time rq \<and> time rq < T + 15 * 60 * 1000"
    and "in_window T (globalHits s a) g" and "in_window T (writeHits s a) w"
    and "i < length rqs" and "ip (rqs ! i) = a"
  shows "admit_all s rqs ! i =
     (if 100 < g + length (filter (\<lambda>rq. ip rq = a) (take (Suc i) rqs))
        then TooMany (message globalLimiter)
      else if usesWriteLimiter (reqMethod (rqs ! i)) (path (rqs ! i))
              \<and> 30 < w + length (filter (\<lambda>rq. ip rq = a \<and> usesWriteLimiter (reqMethod rq) (path rq))
                                 (take (Suc i) rqs))
        then TooMany (message writeLimiter)
      else Dispatched)"
  using assms
proof (induction rqs arbitrary: s g w i)
  case Nil
  then show ?case by simp
next
  case (Cons x xs)
  let ?s' = "snd (admit s x)"
  have rest: "\<forall>rq \<in> set xs. ip rq = a \<longrightarrow> T \<le> time rq \<and> time rq < T + 15 * 60 * 1000"
    using Cons.prems(1) by simp
  show ?case
  proof (cases "ip x = a")
    case False
    with Cons.prems(5) obtain j where i: "i = Suc j" by (cases i) auto
    from False have "globalHits ?s' a = globalHits s a" "writeHits ?s' a = writeHits s a"
      by (simp_all add: admit_other)
    with Cons.prems have "in_window T (globalHits ?s' a) g" "in_window T (writeHits ?s' a) w"
      by simp_all
    from Cons.IH [OF rest this, of j] Cons.prems(4,5) i False
    show ?thesis by (simp add: split_beta)
  next
    case True
    have x: "T \<le> time x" "time x < T + 15 * 60 * 1000"
      using Cons.prems(1) True by simp_all
    note m = admit_mine [of T s x g w, unfolded True, OF Cons.prems(2,3) x]
    show ?thesis
    proof (cases i)
      case 0
      with m(1) True show ?thesis by (simp add: split_beta)
    next
      case (Suc j)
      let ?w' = "if g + 1 \<le> 100 \<and> usesWriteLimiter (reqMethod x) (path x) then w + 1 else w"
      from Cons.IH [OF rest m(2) m(3), of j] Cons.prems(4,5) Suc
      have "admit_all ?s' xs ! j =
        (if 100 < g + 1 + length (filter (\<lambda>rq. ip rq = a) (take (Suc j) xs))
           then TooMany (message globalLimiter)
         else if usesWriteLimiter (reqMethod (xs ! j)) (path (xs ! j))
              \<and> 30 < ?w' + length (filter (\<lambda>rq. ip rq = a \<and> usesWriteLimiter (reqMethod rq) (path rq))
                                 (take (Suc j) xs))
           then TooMany (message writeLimiter)
         else Dispatched)"
        by simp
      with Suc True show ?thesis by (auto simp add: split_beta)
    qed
  qed
qed


lemma admit_all_initial:
  assumes "\<forall>rq \<in> set rqs. ip rq = a \<longrightarrow> T \<le> time rq \<and> time rq < T + 15 * 60 * 1000"
    and "i < length rqs" and "ip (rqs ! i) = a"
  shows "admit_all initial_limits rqs ! i =
     (if 100 < length (filter (\<lambda>rq. ip rq = a) (take (Suc i) rqs))
        then TooMany (message globalLimiter)
      else if usesWriteLimiter (reqMethod (rqs ! i)) (path (rqs ! i))
              \<and> 30 < length (filter (\<lambda>rq. ip rq = a \<and> usesWriteLimiter (reqMethod rq) (path rq))
                             (take (Suc i) rqs))
        then TooMany (message writeLimiter)
      else Dispatched)"
proof -
  have "in_window T (globalHits initial_limits a) 0" "in_window T (writeHits initial_limits a) 0"
    by (simp_all add: in_window_def initial_limits_def)
  from admit_all_verdict [OF assms(1) this assms(2,3)] show ?thesis by simp
qed

text \<open>
  Claim C7, amended. \<open>writeLimiter\<close> is on exactly the five mutating routes: \<open>POST\<close> on
  one segment, \<open>PUT\<close> and \<open>PATCH\<close> on two, \<open>DELETE\<close> on one or two. A request to one of
  them reaches its handler if and only if both limiters let it through; any other request
  (a read, or a mutating verb on a path with no route) is decided by \<open>globalLimiter\<close> alone
  and leaves the write limiter's counts as they were. Starting with no hits recorded, among
  the requests of one IP within 15 minutes, a request past the IP's 100th gets 429 from the
  global limiter; before that, a request to a mutating route gets 429 from the write
  limiter when it is past the IP's 30th such request, and every other request is let
  through.
\<close>

theorem rate_limiters:
  "(usesWriteLimiter m segments \<longleftrightarrow>
      (m = POST \<and> length segments = 1)
      \<or> ((m = PUT \<or> m = PATCH) \<and> length segments = 2)
      \<or> (m = DELETE \<and> (length segments = 1 \<or> length segments = 2)))
   \<and> (usesWriteLimiter (reqMethod rq) (path rq) \<longrightarrow>
        (fst (admit s rq) = Dispatched \<longleftrightarrow>
           fst (hit globalLimiter (globalHits s) (ip rq) (time rq))
           \<and> fst (hit writeLimiter (writeHits s) (ip rq) (time rq))))
   \<and> (\<not> usesWriteLimiter (reqMethod rq) (path rq) \<longrightarrow>
        (fst (admit s rq) = Dispatched \<longleftrightarrow>
           fst (hit globalLimiter (globalHits s) (ip rq) (time rq)))
        \<and> writeHits (snd (admit s rq)) = writeHits s)
   \<and> ((\<forall>rq \<in> set rqs. ip rq = a \<longrightarrow> T \<le> time rq \<and> time rq < T + 15 * 60 * 1000)
        \<and> i < length rqs \<and> ip (rqs ! i) = a \<longrightarrow>
        admit_all initial_limits rqs ! i =
          (if 100 < length (filter (\<lambda>rq. ip rq = a) (take (Suc i) rqs))
             then TooMany ''Too many requests from this IP, please try again later.''
           else if usesWriteLimiter (reqMethod (rqs ! i)) (path (rqs ! i))
                   \<and> 30 < length (filter (\<lambda>rq. ip rq = a \<and> usesWriteLimiter (reqMethod rq) (path rq))
                                  (take (Suc i) rqs))
             then TooMany ''Too many write operations from this IP, please try again later.''
           else Dispatched))"
proof (intro conjI impI)
  show "usesWriteLimiter m segments \<longleftrightarrow>
      (m = POST \<and> length segments = 1)
      \<or> ((m = PUT \<or> m = PATCH) \<and> length segments = 2)
      \<or> (m = DELETE \<and> (length segments = 1 \<or> length segments = 2))"
    by (rule usesWriteLimiter_iff)
  show "fst (admit s rq) = Dispatched \<longleftrightarrow>
           fst (hit globalLimiter (globalHits s) (ip rq) (time rq))
           \<and> fst (hit writeLimiter (writeHits s) (ip rq) (time rq))"
    if "usesWriteLimiter (reqMethod rq) (path rq)"
    using that by (simp add: admit_def split_beta Let_def)
  show "fst (admit s rq) = Dispatched \<longleftrightarrow>
           fst (hit globalLimiter (globalHits s) (ip rq) (time rq))"
    if "\<not> usesWriteLimiter (reqMethod rq) (path rq)"
    using that by (simp add: admit_def split_beta Let_def)
  show "writeHits (snd (admit s rq)) = writeHits s"
    if "\<not> usesWriteLimiter (reqMethod rq) (path rq)"
    using that by (simp add: admit_def split_beta Let_def)
  show "admit_all initial_limits rqs ! i =
          (if 100 < length (filter (\<lambda>rq. ip rq = a) (take (Suc i) rqs))
             then TooMany ''Too many requests from this IP, please try again later.''
           else if usesWriteLimiter (reqMethod (rqs ! i)) (path (rqs ! i))
                   \<and> 30 < length (filter (\<lambda>rq. ip rq = a \<and> usesWriteLimiter (reqMethod rq) (path rq))
                                  (take (Suc i) rqs))
             then TooMany ''Too many write operations from this IP, please try again later.''
           else Dispatched)"
    if "(\<forall>rq \<in> set rqs. ip rq = a \<longrightarrow> T \<le> time rq \<and> time rq < T + 15 * 60 * 1000)
        \<and> i < length rqs \<and> ip (rqs ! i) = a"
    using admit_all_initial [of rqs a T i] that
    by (simp add: globalLimiter_def writeLimiter_def)
qed

theorem rate_limiters_witness:
  "admit_all initial_limits
     (replicate 31 \<lparr>ip = ''10.0.0.1'', time = 5, reqMethod = POST, path = [''posts'']\<rparr>) ! 29
     = Dispatched
   \<and> admit_all initial_limits
     (replicate 31 \<lparr>ip = ''10.0.0.1'', time = 5, reqMethod = POST, path = [''posts'']\<rparr>) ! 30
     = TooMany ''Too many write operations from this IP, please try again later.''"
proof -
  let ?rq = "\<lparr>ip = ''10.0.0.1'', time = 5, reqMethod = POST, path = [''posts'']\<rparr>"
  have u: "usesWriteLimiter POST [''posts'']"
    using rate_limiters [where m = POST and segments = "[''posts'']"] by simp
  have a: "admit_all initial_limits (replicate 31 ?rq) ! 29 = Dispatched"
    using rate_limiters [where rqs = "replicate 31 ?rq" and a = "''10.0.0.1''" and T = 0 and i = 29]
      u by simp
  have b: "admit_all initial_limits (replicate 31 ?rq) ! 30
     = TooMany ''Too many write operations from this IP, please try again later.''"
    using rate_limiters [where rqs = "replicate 31 ?rq" and a = "''10.0.0.1''" and T = 0 and i = 30]
      u by simp
  from a b show ?thesis by simp
qed

text \<open>
  \<open>PUT /posts\<close> has a mutating verb and matches no route: it passes \<open>globalLimiter\<close> only,
  and the write limiter records nothing. And after 100 reads in the window, the first write
  of the IP is refused by the global limiter although the write cap is not reached.
\<close>

theorem rate_limiters_counterexample:
  "\<not> usesWriteLimiter PUT [''posts'']
   \<and> admit initial_limits \<lparr>ip = ''10.0.0.1'', time = 5, reqMethod = PUT, path = [''posts'']\<rparr>
       = (Dispatched, \<lparr>globalHits = [''10.0.0.1'' \<mapsto> (1, 900005)], writeHits = Map.empty\<rparr>)
   \<and> admit_all initial_limits
        (replicate 100 \<lparr>ip = ''10.0.0.1'', time = 5, reqMethod = GET, path = [''posts'']\<rparr>
         @ [\<lparr>ip = ''10.0.0.1'', time = 5, reqMethod = POST, path = [''posts'']\<rparr>]) ! 100
       = TooMany ''Too many requests from this IP, please try again later.''"
proof -
  have u: "\<not> usesWriteLimiter PUT [''posts'']"
    by (simp add: usesWriteLimiter_iff)
  then have a: "admit initial_limits \<lparr>ip = ''10.0.0.1'', time = 5, reqMethod = PUT, path = [''posts'']\<rparr>
       = (Dispatched, \<lparr>globalHits = [''10.0.0.1'' \<mapsto> (1, 900005)], writeHits = Map.empty\<rparr>)"
    by (simp add: admit_def hit_def initial_limits_def globalLimiter_def)
  let ?rqs = "replicate 100 \<lparr>ip = ''10.0.0.1'', time = 5, reqMethod = GET, path = [''posts'']\<rparr>
         @ [\<lparr>ip = ''10.0.0.1'', time = 5, reqMethod = POST, path = [''posts'']\<rparr>]"
  have b: "admit_all initial_limits ?rqs ! 100
       = TooMany ''Too many requests from this IP, please try again later.''"
    using admit_all_initial [of ?rqs "''10.0.0.1''" 0 100]
    by (simp add: globalLimiter_def nth_append)
  from u a b show ?thesis by simp
qed

end
